theory Spec2Isabelle
  imports Complex_Main "HOL-Library.Word" "HOL-Library.Signed_Division"
begin

section \<open>Machine integers of part-vii.cpp\<close>

text \<open>
  The source declares \<^verbatim>\<open>using ll = long long;\<close>: a 64-bit signed integer. It is
  modelled as a 64-bit word read in two's complement by \<open>sint\<close>. The operators
  \<open>+\<close>, \<open>-\<close> and \<open>*\<close> on words wrap around modulo \<open>2 ^ 64\<close>. C++ leaves signed
  overflow undefined; wrapping is what the compiled two's-complement arithmetic does, and
  the source has no check of its own. Statements that depend on the absence of overflow
  say so with \<open>fits\<close>, so they hold whatever an overflowing step does. The comparisons
  of the source are the signed comparisons \<open><s\<close> and \<open>\<le>s\<close>.
\<close>

type_synonym ll = "64 word"

definition LLONG_MIN :: ll where
  "LLONG_MIN = word_of_int (- (2 ^ 63))"

text \<open>
  \<open>fits k\<close>: the mathematical integer \<open>k\<close> is representable as a \<^verbatim>\<open>long long\<close>.
  An arithmetic step whose exact result fits does not overflow.
\<close>

definition fits :: "int \<Rightarrow> bool" where
  "fits k = (- (2 ^ 63) \<le> k \<and> k < 2 ^ 63)"

text \<open>
  The \<^verbatim>\<open>/=\<close> of the source on \<^verbatim>\<open>long long\<close>: C++ integer division, which
  truncates towards zero (\<open>sdiv\<close> on \<open>int\<close>), unlike \<open>div\<close> which rounds down.
  The source divides only behind the guard \<^verbatim>\<open>new_gcd != 0\<close>; lemma
  \<open>reduction_division_defined\<close> shows that every division it executes is defined.
\<close>

definition ll_div :: "ll \<Rightarrow> ll \<Rightarrow> ll" where
  "ll_div a b = word_of_int (sint a sdiv sint b)"

text \<open>
  \<^verbatim>\<open>std::gcd\<close> of the C++ standard library (\<^verbatim>\<open><numeric>\<close>): the greatest common
  divisor of \<open>\<bar>m\<bar>\<close> and \<open>\<bar>n\<bar>\<close>, zero when both are zero, returned as a
  \<^verbatim>\<open>long long\<close>. The only value that does not fit is \<open>2 ^ 63\<close> (both arguments in
  \<open>{0, LLONG_MIN}\<close>, not both zero); the conversion back to \<^verbatim>\<open>long long\<close> then
  yields \<open>LLONG_MIN\<close>, as the implementations computing on the unsigned type do.
\<close>

definition std_gcd :: "ll \<Rightarrow> ll \<Rightarrow> ll" where
  "std_gcd m n = word_of_int (gcd (sint m) (sint n))"

section \<open>The class Frac\<close>

record Frac =
  num :: ll
  den :: ll

text \<open>The three constructors: \<^verbatim>\<open>Frac()\<close>, \<^verbatim>\<open>Frac(ll num)\<close>, \<^verbatim>\<open>Frac(ll num, ll den)\<close>.\<close>

definition Frac_default :: Frac where
  "Frac_default = \<lparr>num = 0, den = 1\<rparr>"

definition Frac_of_ll :: "ll \<Rightarrow> Frac" where
  "Frac_of_ll n = \<lparr>num = n, den = 1\<rparr>"

definition mk_Frac :: "ll \<Rightarrow> ll \<Rightarrow> Frac" where
  "mk_Frac n d = \<lparr>num = n, den = d\<rparr>"

subsection \<open>Comparison operators\<close>

text \<open>
  Each operator compares \<^verbatim>\<open>num() * other.den()\<close> with \<^verbatim>\<open>other.num() * den()\<close>. There
  is no \<open>>\<close> on signed words, so \<open>x > y\<close> is written \<open>y <s x\<close> and \<open>x >= y\<close> is
  written \<open>y \<le>s x\<close>.
\<close>

definition frac_less :: "Frac \<Rightarrow> Frac \<Rightarrow> bool" where
  "frac_less a other = (num a * den other <s num other * den a)"

definition frac_le :: "Frac \<Rightarrow> Frac \<Rightarrow> bool" where
  "frac_le a other = (num a * den other \<le>s num other * den a)"

definition frac_greater :: "Frac \<Rightarrow> Frac \<Rightarrow> bool" where
  "frac_greater a other = (num other * den a <s num a * den other)"

definition frac_ge :: "Frac \<Rightarrow> Frac \<Rightarrow> bool" where
  "frac_ge a other = (num other * den a \<le>s num a * den other)"

definition frac_eq :: "Frac \<Rightarrow> Frac \<Rightarrow> bool" where
  "frac_eq a other = (num a * den other = num other * den a)"

subsection \<open>Arithmetic operators\<close>

definition frac_add :: "Frac \<Rightarrow> Frac \<Rightarrow> Frac" where
  "frac_add a other =
     (let new_num = num a * den other + den a * num other;
          new_den = den a * den other;
          new_gcd = std_gcd new_num new_den
      in if new_gcd \<noteq> 0
         then \<lparr>num = ll_div new_num new_gcd, den = ll_div new_den new_gcd\<rparr>
         else \<lparr>num = new_num, den = new_den\<rparr>)"

definition frac_sub :: "Frac \<Rightarrow> Frac \<Rightarrow> Frac" where
  "frac_sub a other =
     (let new_num = num a * den other - den a * num other;
          new_den = den a * den other;
          new_gcd = std_gcd new_num new_den
      in if new_gcd \<noteq> 0
         then \<lparr>num = ll_div new_num new_gcd, den = ll_div new_den new_gcd\<rparr>
         else \<lparr>num = new_num, den = new_den\<rparr>)"

definition frac_mul :: "Frac \<Rightarrow> Frac \<Rightarrow> Frac" where
  "frac_mul a other =
     (let new_num = num a * num other;
          new_den = den a * den other;
          new_gcd = std_gcd new_num new_den
      in if new_gcd \<noteq> 0
         then \<lparr>num = ll_div new_num new_gcd, den = ll_div new_den new_gcd\<rparr>
         else \<lparr>num = new_num, den = new_den\<rparr>)"

definition frac_div :: "Frac \<Rightarrow> Frac \<Rightarrow> Frac" where
  "frac_div a other =
     (let new_num = num a * den other;
          new_den = den a * num other;
          new_gcd = std_gcd new_num new_den
      in if new_gcd \<noteq> 0
         then \<lparr>num = ll_div new_num new_gcd, den = ll_div new_den new_gcd\<rparr>
         else \<lparr>num = new_num, den = new_den\<rparr>)"

definition positive :: "Frac \<Rightarrow> bool" where
  "positive a = ((0 <s num a \<and> 0 <s den a) \<or> (num a <s 0 \<and> den a <s 0))"

section \<open>The class FracPoint2 and its vector operations\<close>

record FracPoint2 =
  pt_x :: Frac
  pt_y :: Frac

definition pt_add :: "FracPoint2 \<Rightarrow> FracPoint2 \<Rightarrow> FracPoint2" where
  "pt_add p q = \<lparr>pt_x = frac_add (pt_x p) (pt_x q), pt_y = frac_add (pt_y p) (pt_y q)\<rparr>"

definition pt_sub :: "FracPoint2 \<Rightarrow> FracPoint2 \<Rightarrow> FracPoint2" where
  "pt_sub p q = \<lparr>pt_x = frac_sub (pt_x p) (pt_x q), pt_y = frac_sub (pt_y p) (pt_y q)\<rparr>"

text \<open>\<^verbatim>\<open>operator *(const Frac &s, const FracPoint2 &p)\<close>: the scalar on the left.\<close>

definition scalar_mul_left :: "Frac \<Rightarrow> FracPoint2 \<Rightarrow> FracPoint2" where
  "scalar_mul_left s p = \<lparr>pt_x = frac_mul s (pt_x p), pt_y = frac_mul s (pt_y p)\<rparr>"

text \<open>\<^verbatim>\<open>operator *(const FracPoint2 &p, const Frac &s)\<close>: the scalar on the right.\<close>

definition scalar_mul_right :: "FracPoint2 \<Rightarrow> Frac \<Rightarrow> FracPoint2" where
  "scalar_mul_right p s = \<lparr>pt_x = frac_mul s (pt_x p), pt_y = frac_mul s (pt_y p)\<rparr>"

definition scalar_div :: "FracPoint2 \<Rightarrow> Frac \<Rightarrow> FracPoint2" where
  "scalar_div p s = \<lparr>pt_x = frac_div (pt_x p) s, pt_y = frac_div (pt_y p) s\<rparr>"

definition cross :: "FracPoint2 \<Rightarrow> FracPoint2 \<Rightarrow> Frac" where
  "cross p q = frac_sub (frac_mul (pt_x p) (pt_y q)) (frac_mul (pt_x q) (pt_y p))"

section \<open>The class Traits\<close>

definition Less_xy_2 :: "FracPoint2 \<Rightarrow> FracPoint2 \<Rightarrow> bool" where
  "Less_xy_2 p q =
     (frac_less (pt_x p) (pt_x q) \<or> (frac_eq (pt_x p) (pt_x q) \<and> frac_less (pt_y p) (pt_y q)))"

definition Left_turn_2 :: "FracPoint2 \<Rightarrow> FracPoint2 \<Rightarrow> FracPoint2 \<Rightarrow> bool" where
  "Left_turn_2 p0 p1 p2 = (let tv = cross (pt_sub p1 p0) (pt_sub p2 p0) in positive tv)"

definition Equal_2 :: "FracPoint2 \<Rightarrow> FracPoint2 \<Rightarrow> bool" where
  "Equal_2 p q = (frac_eq (pt_x p) (pt_x q) \<and> frac_eq (pt_y p) (pt_y q))"

section \<open>Rational value of a fraction\<close>

text \<open>
  The rational number \<open>num / den\<close> that a \<open>Frac\<close> stands for, used to state what the
  operators compute. It is meaningful when the denominator is not zero.
\<close>

definition rat_of :: "Frac \<Rightarrow> rat" where
  "rat_of a = of_int (sint (num a)) / of_int (sint (den a))"

text \<open>
  \<open>cmp_fits a b\<close>: neither of the two cross products that a comparison of \<open>a\<close>
  with \<open>b\<close> evaluates overflows.
\<close>

definition cmp_fits :: "Frac \<Rightarrow> Frac \<Rightarrow> bool" where
  "cmp_fits a b = (fits (sint (num a) * sint (den b)) \<and> fits (sint (num b) * sint (den a)))"

section \<open>The reduction step\<close>

text \<open>
  The four arithmetic operators end with the same statements: take \<^verbatim>\<open>std::gcd\<close> of
  the new numerator and denominator and, unless it is zero, divide both by it.
  \<open>reduce\<close> names this common tail for the proofs; lemmas \<open>frac_add_reduce\<close> to
  \<open>frac_div_reduce\<close> relate each operator to it.
\<close>

definition reduce :: "ll \<Rightarrow> ll \<Rightarrow> Frac" where
  "reduce new_num new_den =
     (let new_gcd = std_gcd new_num new_den
      in if new_gcd \<noteq> 0
         then \<lparr>num = ll_div new_num new_gcd, den = ll_div new_den new_gcd\<rparr>
         else \<lparr>num = new_num, den = new_den\<rparr>)"

section \<open>Auxiliary notions used in the statements\<close>

text \<open>The sign of a \<^verbatim>\<open>long long\<close> as a \<^verbatim>\<open>long long\<close>: \<open>1\<close>, \<open>- 1\<close> or \<open>0\<close>.\<close>

definition ll_sign :: "ll \<Rightarrow> ll" where
  "ll_sign m = (if 0 <s m then 1 else if m <s 0 then - 1 else 0)"

text \<open>
  The operands on which \<^verbatim>\<open>/\<close> on \<^verbatim>\<open>long long\<close> is defined: the divisor is not
  zero and the quotient is representable (it is not for \<open>LLONG_MIN / - 1\<close>). Outside of
  them the machine instruction traps.
\<close>

definition ll_div_defined :: "ll \<Rightarrow> ll \<Rightarrow> bool" where
  "ll_div_defined a b = (b \<noteq> 0 \<and> \<not> (a = LLONG_MIN \<and> b = - 1))"

text \<open>
  The value of \<^verbatim>\<open>new_num\<close> in the call of \<^verbatim>\<open>operator -\<close> that \<open>cross p q\<close>
  makes, before the reduction step.
\<close>

definition cross_new_num :: "FracPoint2 \<Rightarrow> FracPoint2 \<Rightarrow> ll" where
  "cross_new_num p q =
     (let a = frac_mul (pt_x p) (pt_y q); other = frac_mul (pt_x q) (pt_y p)
      in num a * den other - den a * num other)"

text \<open>Both coordinates of a point have a strictly positive denominator.\<close>

definition pos_dens :: "FracPoint2 \<Rightarrow> bool" where
  "pos_dens p = (0 <s den (pt_x p) \<and> 0 <s den (pt_y p))"

text \<open>No cross product overflows in the comparisons of the coordinates of two points.\<close>

definition pt_cmp_fits :: "FracPoint2 \<Rightarrow> FracPoint2 \<Rightarrow> bool" where
  "pt_cmp_fits p q = (cmp_fits (pt_x p) (pt_x q) \<and> cmp_fits (pt_y p) (pt_y q))"

subsection \<open>Concrete inputs\<close>

text \<open>\<open>2 ^ 62 / 1\<close> and \<open>1 / 2\<close>: the cross product \<open>2 ^ 62 * 2\<close> overflows.\<close>

definition big_frac :: Frac where
  "big_frac = \<lparr>num = 2 ^ 62, den = 1\<rparr>"

definition half_frac :: Frac where
  "half_frac = \<lparr>num = 1, den = 2\<rparr>"

text \<open>The origin, the point \<open>(LLONG_MIN / 1, 0 / 1)\<close> and the point \<open>(0 / 1, 1 / - 1)\<close>.\<close>

definition origin_pt :: FracPoint2 where
  "origin_pt = \<lparr>pt_x = \<lparr>num = 0, den = 1\<rparr>, pt_y = \<lparr>num = 0, den = 1\<rparr>\<rparr>"

definition min_x_pt :: FracPoint2 where
  "min_x_pt = \<lparr>pt_x = \<lparr>num = LLONG_MIN, den = 1\<rparr>, pt_y = \<lparr>num = 0, den = 1\<rparr>\<rparr>"

definition neg_den_y_pt :: FracPoint2 where
  "neg_den_y_pt = \<lparr>pt_x = \<lparr>num = 0, den = 1\<rparr>, pt_y = \<lparr>num = 1, den = - 1\<rparr>\<rparr>"

text \<open>Two points on the x axis, with abscissae \<open>2 / 1\<close> and \<open>- 1 / - 1\<close>.\<close>

definition two_pt :: FracPoint2 where
  "two_pt = \<lparr>pt_x = \<lparr>num = 2, den = 1\<rparr>, pt_y = \<lparr>num = 0, den = 1\<rparr>\<rparr>"

definition neg_one_pt :: FracPoint2 where
  "neg_one_pt = \<lparr>pt_x = \<lparr>num = - 1, den = - 1\<rparr>, pt_y = \<lparr>num = 0, den = 1\<rparr>\<rparr>"

text \<open>The fraction \<open>LLONG_MIN / 1\<close>.\<close>

definition min_frac :: Frac where
  "min_frac = \<lparr>num = LLONG_MIN, den = 1\<rparr>"

section \<open>Signed 64-bit arithmetic\<close>

lemma fits_sint: "fits (sint (a::ll))"
  using sint_ge [of a] sint_lt [of a] by (simp add: fits_def)

lemma sint_of_int_fits: "fits k \<Longrightarrow> sint (word_of_int k :: ll) = k"
  by (simp add: fits_def sint_sbintrunc' signed_take_bit_int_eq_self)

lemma sint_mult_fits: "fits (sint a * sint b) \<Longrightarrow> sint (a * b :: ll) = sint a * sint b"
  by (simp add: fits_def sint_word_mult signed_take_bit_int_eq_self)

lemma ll_eq_iff_sint: "(a::ll) = b \<longleftrightarrow> sint a = sint b"
  by (auto intro: signed_word_eqI)

section \<open>Comparisons against the rational values\<close>

lemma rat_less_cross:
  fixes n m d e :: int
  assumes "0 < d" "0 < e"
  shows "(of_int n / of_int d :: rat) < of_int m / of_int e \<longleftrightarrow> n * e < m * d"
proof -
  have "(of_int n / of_int d :: rat) < of_int m / of_int e \<longleftrightarrow>
        (of_int n * of_int e :: rat) < of_int m * of_int d"
    using assms by (simp add: field_simps)
  also have "\<dots> \<longleftrightarrow> n * e < m * d"
    by (simp only: of_int_mult [symmetric] of_int_less_iff)
  finally show ?thesis .
qed

lemma rat_le_cross:
  fixes n m d e :: int
  assumes "0 < d" "0 < e"
  shows "(of_int n / of_int d :: rat) \<le> of_int m / of_int e \<longleftrightarrow> n * e \<le> m * d"
proof -
  have "(of_int n / of_int d :: rat) \<le> of_int m / of_int e \<longleftrightarrow>
        (of_int n * of_int e :: rat) \<le> of_int m * of_int d"
    using assms by (simp add: field_simps)
  also have "\<dots> \<longleftrightarrow> n * e \<le> m * d"
    by (simp only: of_int_mult [symmetric] of_int_le_iff)
  finally show ?thesis .
qed

lemma rat_eq_cross:
  fixes n m d e :: int
  assumes "0 < d" "0 < e"
  shows "(of_int n / of_int d :: rat) = of_int m / of_int e \<longleftrightarrow> n * e = m * d"
proof -
  have "(of_int n / of_int d :: rat) = of_int m / of_int e \<longleftrightarrow>
        (of_int n * of_int e :: rat) = of_int m * of_int d"
    using assms by (simp add: field_simps)
  also have "\<dots> \<longleftrightarrow> n * e = m * d"
    by (simp only: of_int_mult [symmetric] of_int_eq_iff)
  finally show ?thesis .
qed

lemma frac_less_rat:
  assumes "0 <s den a" "0 <s den b" "cmp_fits a b"
  shows "frac_less a b \<longleftrightarrow> rat_of a < rat_of b"
proof -
  have d: "0 < sint (den a)" "0 < sint (den b)"
    using assms by (simp_all add: word_sless_alt)
  have "frac_less a b \<longleftrightarrow> sint (num a) * sint (den b) < sint (num b) * sint (den a)"
    using assms(3) by (simp add: frac_less_def cmp_fits_def word_sless_alt word_sle_eq sint_mult_fits)
  also have "\<dots> \<longleftrightarrow> rat_of a < rat_of b"
    unfolding rat_of_def by (rule rat_less_cross [OF d, symmetric])
  finally show ?thesis .
qed

lemma frac_le_rat:
  assumes "0 <s den a" "0 <s den b" "cmp_fits a b"
  shows "frac_le a b \<longleftrightarrow> rat_of a \<le> rat_of b"
proof -
  have d: "0 < sint (den a)" "0 < sint (den b)"
    using assms by (simp_all add: word_sless_alt)
  have "frac_le a b \<longleftrightarrow> sint (num a) * sint (den b) \<le> sint (num b) * sint (den a)"
    using assms(3) by (simp add: frac_le_def cmp_fits_def word_sless_alt word_sle_eq sint_mult_fits)
  also have "\<dots> \<longleftrightarrow> rat_of a \<le> rat_of b"
    unfolding rat_of_def by (rule rat_le_cross [OF d, symmetric])
  finally show ?thesis .
qed

lemma frac_greater_rat:
  assumes "0 <s den a" "0 <s den b" "cmp_fits a b"
  shows "frac_greater a b \<longleftrightarrow> rat_of b < rat_of a"
proof -
  have d: "0 < sint (den b)" "0 < sint (den a)"
    using assms by (simp_all add: word_sless_alt)
  have "frac_greater a b \<longleftrightarrow> sint (num b) * sint (den a) < sint (num a) * sint (den b)"
    using assms(3) by (simp add: frac_greater_def cmp_fits_def word_sless_alt word_sle_eq sint_mult_fits)
  also have "\<dots> \<longleftrightarrow> rat_of b < rat_of a"
    unfolding rat_of_def by (rule rat_less_cross [OF d, symmetric])
  finally show ?thesis .
qed

lemma frac_ge_rat:
  assumes "0 <s den a" "0 <s den b" "cmp_fits a b"
  shows "frac_ge a b \<longleftrightarrow> rat_of b \<le> rat_of a"
proof -
  have d: "0 < sint (den b)" "0 < sint (den a)"
    using assms by (simp_all add: word_sless_alt)
  have "frac_ge a b \<longleftrightarrow> sint (num b) * sint (den a) \<le> sint (num a) * sint (den b)"
    using assms(3) by (simp add: frac_ge_def cmp_fits_def word_sless_alt word_sle_eq sint_mult_fits)
  also have "\<dots> \<longleftrightarrow> rat_of b \<le> rat_of a"
    unfolding rat_of_def by (rule rat_le_cross [OF d, symmetric])
  finally show ?thesis .
qed

lemma frac_eq_rat:
  assumes "0 <s den a" "0 <s den b" "cmp_fits a b"
  shows "frac_eq a b \<longleftrightarrow> rat_of a = rat_of b"
proof -
  have d: "0 < sint (den a)" "0 < sint (den b)"
    using assms by (simp_all add: word_sless_alt)
  have "frac_eq a b \<longleftrightarrow> sint (num a) * sint (den b) = sint (num b) * sint (den a)"
    using assms(3) by (simp add: frac_eq_def cmp_fits_def word_sless_alt word_sle_eq sint_mult_fits ll_eq_iff_sint [of "num a * den b"])
  also have "\<dots> \<longleftrightarrow> rat_of a = rat_of b"
    unfolding rat_of_def by (rule rat_eq_cross [OF d, symmetric])
  finally show ?thesis .
qed

section \<open>Properties of the reduction step\<close>

lemma frac_add_reduce:
  "frac_add a b = reduce (num a * den b + den a * num b) (den a * den b)"
  by (simp add: frac_add_def reduce_def Let_def)

lemma frac_sub_reduce:
  "frac_sub a b = reduce (num a * den b - den a * num b) (den a * den b)"
  by (simp add: frac_sub_def reduce_def Let_def)

lemma frac_mul_reduce:
  "frac_mul a b = reduce (num a * num b) (den a * den b)"
  by (simp add: frac_mul_def reduce_def Let_def)

lemma frac_div_reduce:
  "frac_div a b = reduce (num a * den b) (den a * num b)"
  by (simp add: frac_div_def reduce_def Let_def)

lemma sint_LLONG_MIN: "sint LLONG_MIN = - (2 ^ 63)"
  by (simp add: LLONG_MIN_def sint_of_int_fits fits_def)

lemma sint_eq_0_iff: "sint (a::ll) = 0 \<longleftrightarrow> a = 0"
  using ll_eq_iff_sint [of a 0] by simp

lemma sint_eq_min_iff: "sint (a::ll) = - (2 ^ 63) \<longleftrightarrow> a = LLONG_MIN"
  using ll_eq_iff_sint [of a LLONG_MIN] by (simp add: sint_LLONG_MIN)

text \<open>The mathematical gcd of two 64-bit values is at most 2^63.\<close>

lemma abs_sint_le: "\<bar>sint (a::ll)\<bar> \<le> 2 ^ 63"
  using fits_sint [of a] by (simp add: fits_def abs_le_iff)

lemma gcd_le_abs1:
  fixes m n :: int
  assumes "m \<noteq> 0"
  shows "gcd m n \<le> \<bar>m\<bar>"
  using assms gcd_le1_int [of "\<bar>m\<bar>" n] by simp

lemma gcd_le_abs2:
  fixes m n :: int
  assumes "n \<noteq> 0"
  shows "gcd m n \<le> \<bar>n\<bar>"
  using assms gcd_le2_int [of "\<bar>n\<bar>" m] by simp

lemma gcd_sint_le: "gcd (sint (m::ll)) (sint (n::ll)) \<le> 2 ^ 63"
proof (cases "sint m = 0")
  case True
  then show ?thesis using abs_sint_le [of n] by simp
next
  case False
  then show ?thesis using gcd_le_abs1 [of "sint m" "sint n"] abs_sint_le [of m] by linarith
qed

lemma gcd_sint_small:
  assumes "m \<noteq> LLONG_MIN \<or> n \<noteq> LLONG_MIN" "m \<noteq> 0" "n \<noteq> 0"
  shows "gcd (sint (m::ll)) (sint (n::ll)) < 2 ^ 63"
proof -
  from assms(1) show ?thesis
  proof
    assume "m \<noteq> LLONG_MIN"
    then have "\<bar>sint m\<bar> < 2 ^ 63"
      using fits_sint [of m] sint_eq_min_iff [of m] by (simp add: fits_def abs_less_iff)
    moreover have "gcd (sint m) (sint n) \<le> \<bar>sint m\<bar>"
      using assms(2) by (intro gcd_le_abs1) (simp add: sint_eq_0_iff)
    ultimately show ?thesis by linarith
  next
    assume "n \<noteq> LLONG_MIN"
    then have "\<bar>sint n\<bar> < 2 ^ 63"
      using fits_sint [of n] sint_eq_min_iff [of n] by (simp add: fits_def abs_less_iff)
    moreover have "gcd (sint m) (sint n) \<le> \<bar>sint n\<bar>"
      using assms(3) by (intro gcd_le_abs2) (simp add: sint_eq_0_iff)
    ultimately show ?thesis by linarith
  qed
qed

lemma std_gcd_eq_0_iff: "std_gcd m n = 0 \<longleftrightarrow> m = 0 \<and> n = 0"
proof
  assume z: "std_gcd m n = 0"
  let ?G = "gcd (sint m) (sint n)"
  have "?G \<le> 2 ^ 63" by (rule gcd_sint_le)
  moreover have "0 \<le> ?G" by simp
  moreover have "(word_of_int ?G :: ll) = 0" using z by (simp add: std_gcd_def)
  then have "(2::int) ^ 64 dvd ?G"
    by (simp add: word_of_int_eq_0_iff)
  ultimately have "?G = 0"
    using zdvd_imp_le [of "2 ^ 64" ?G] by (cases "?G = 0") simp_all
  then show "m = 0 \<and> n = 0" by (simp add: sint_eq_0_iff)
next
  assume "m = 0 \<and> n = 0"
  then show "std_gcd m n = 0" by (simp add: std_gcd_def)
qed


lemma sint_std_gcd_small:
  assumes "gcd (sint m) (sint n) < 2 ^ 63"
  shows "sint (std_gcd m n) = gcd (sint m) (sint n)"
proof -
  have "fits (gcd (sint m) (sint n))"
    using assms gcd_ge_0_int [of "sint m" "sint n"] unfolding fits_def by linarith
  then show ?thesis by (simp add: std_gcd_def sint_of_int_fits)
qed

lemma sdiv_exact:
  fixes k l :: int
  assumes "l dvd k"
  shows "k sdiv l = k div l"
  using assms by (simp add: signed_divide_int_eq_divide_int)

lemma fits_div_pos:
  assumes "fits k" "0 < g"
  shows "fits (k div g)"
proof (cases "0 \<le> k")
  case True
  then have "0 \<le> k div g" "k div g \<le> k"
    using assms(2) zdiv_mono2 [of k 1 g] by (simp_all add: pos_imp_zdiv_nonneg_iff)
  then show ?thesis using assms(1) by (simp add: fits_def)
next
  case False
  then have "k div g < 0" using assms(2) by (simp add: pos_imp_zdiv_neg_iff)
  moreover have "k \<le> k div g"
  proof -
    have "k * g \<le> k * 1" using False assms(2) by (intro mult_left_mono_neg) simp_all
    then have "k * g div g \<le> k div g" by (intro zdiv_mono1) (use assms(2) in simp_all)
    then show ?thesis using assms(2) by simp
  qed
  ultimately show ?thesis using assms(1) by (simp add: fits_def)
qed

lemma reduce_small:
  assumes "0 < gcd (sint n) (sint d)" "gcd (sint n) (sint d) < 2 ^ 63"
  shows "sint (num (reduce n d)) = sint n div gcd (sint n) (sint d)"
    and "sint (den (reduce n d)) = sint d div gcd (sint n) (sint d)"
proof -
  let ?G = "gcd (sint n) (sint d)"
  have g: "sint (std_gcd n d) = ?G" by (rule sint_std_gcd_small [OF assms(2)])
  then have nz: "std_gcd n d \<noteq> 0" using assms(1) by (auto simp: sint_eq_0_iff [symmetric])
  have "sint n sdiv ?G = sint n div ?G" "sint d sdiv ?G = sint d div ?G"
    by (simp_all add: sdiv_exact)
  moreover have "fits (sint n div ?G)" "fits (sint d div ?G)"
    using assms(1) by (simp_all add: fits_div_pos fits_sint)
  ultimately show "sint (num (reduce n d)) = sint n div ?G"
    and "sint (den (reduce n d)) = sint d div ?G"
    using nz g by (simp_all add: reduce_def Let_def ll_div_def sint_of_int_fits)
qed

lemma dvd_big_cases:
  assumes "(2::int) ^ 63 dvd sint (n::ll)"
  shows "n = 0 \<or> n = LLONG_MIN"
proof (cases "n = 0")
  case False
  then have nz: "sint n \<noteq> 0" by (simp add: sint_eq_0_iff)
  have "(2::int) ^ 63 dvd \<bar>sint n\<bar>" using assms by simp
  then have "(2::int) ^ 63 \<le> \<bar>sint n\<bar>" using nz by (intro zdvd_imp_le) simp_all
  then have "sint n = - (2 ^ 63)" using fits_sint [of n] by (simp add: fits_def abs_if split: if_splits)
  then show ?thesis using sint_eq_min_iff [of n] by simp
qed simp

lemma std_gcd_big:
  assumes "gcd (sint n) (sint d) = 2 ^ 63"
  shows "std_gcd n d = LLONG_MIN"
proof -
  have "(word_of_int (2 ^ 63) :: ll) = word_of_int (- (2 ^ 63))"
    by simp
  then show ?thesis using assms by (simp add: std_gcd_def LLONG_MIN_def)
qed

lemma reduce_big:
  assumes "gcd (sint n) (sint d) = 2 ^ 63"
  shows "reduce n d = \<lparr>num = (if n = 0 then 0 else 1), den = (if d = 0 then 0 else 1)\<rparr>"
proof -
  have "(2::int) ^ 63 dvd sint n" "(2::int) ^ 63 dvd sint d"
    using gcd_dvd1 [of "sint n" "sint d"] gcd_dvd2 [of "sint n" "sint d"] assms by simp_all
  then have c: "n = 0 \<or> n = LLONG_MIN" "d = 0 \<or> d = LLONG_MIN"
    by (simp_all add: dvd_big_cases)
  have g: "std_gcd n d = LLONG_MIN" by (rule std_gcd_big [OF assms])
  have m: "LLONG_MIN \<noteq> 0" using sint_LLONG_MIN sint_eq_0_iff [of LLONG_MIN] by simp
  have "ll_div 0 LLONG_MIN = 0" "ll_div LLONG_MIN LLONG_MIN = 1"
    by (simp_all add: ll_div_def sint_LLONG_MIN signed_divide_int_def)
  then show ?thesis using c g m by (auto simp: reduce_def Let_def)
qed

lemma gcd_sint_cases:
  "gcd (sint (n::ll)) (sint (d::ll)) = 0 \<or>
   (0 < gcd (sint n) (sint d) \<and> gcd (sint n) (sint d) < 2 ^ 63) \<or>
   gcd (sint n) (sint d) = 2 ^ 63"
  using gcd_sint_le [of n d] gcd_ge_0_int [of "sint n" "sint d"] by linarith

lemma reduce_coprime:
  assumes "std_gcd n d \<noteq> 0"
  shows "gcd (sint (num (reduce n d))) (sint (den (reduce n d))) = 1"
proof -
  let ?G = "gcd (sint n) (sint d)"
  have nz: "sint n \<noteq> 0 \<or> sint d \<noteq> 0"
    using assms by (simp add: std_gcd_eq_0_iff sint_eq_0_iff)
  then have "?G \<noteq> 0" by simp
  with gcd_sint_cases [of n d] consider "0 < ?G" "?G < 2 ^ 63" | "?G = 2 ^ 63" by blast
  then show ?thesis
  proof cases
    case 1
    have "gcd (sint n div ?G) (sint d div ?G) = 1"
      using nz by (intro div_gcd_coprime [unfolded coprime_iff_gcd_eq_1]) 
    then show ?thesis by (simp add: reduce_small [OF 1])
  next
    case 2
    then show ?thesis using nz by (auto simp: reduce_big sint_eq_0_iff)
  qed
qed

lemma positive_reduce: "positive (reduce n d) = positive \<lparr>num = n, den = d\<rparr>"
proof -
  let ?G = "gcd (sint n) (sint d)"
  from gcd_sint_cases [of n d] consider "?G = 0" | "0 < ?G" "?G < 2 ^ 63" | "?G = 2 ^ 63" by blast
  then show ?thesis
  proof cases
    case 1
    then have "n = 0" "d = 0" by (simp_all add: sint_eq_0_iff)
    then show ?thesis by (simp add: reduce_def Let_def std_gcd_def)
  next
    case 2
    have dv: "?G dvd sint n" "?G dvd sint d" by simp_all
    have "0 < sint n div ?G \<longleftrightarrow> 0 < sint n"
      using 2(1) zdvd_imp_le [OF dv(1)] pos_imp_zdiv_pos_iff [OF 2(1), of "sint n"] by linarith
    moreover have "0 < sint d div ?G \<longleftrightarrow> 0 < sint d"
      using 2(1) zdvd_imp_le [OF dv(2)] pos_imp_zdiv_pos_iff [OF 2(1), of "sint d"] by linarith
    moreover have "sint n div ?G < 0 \<longleftrightarrow> sint n < 0" "sint d div ?G < 0 \<longleftrightarrow> sint d < 0"
      using 2(1) by (simp_all add: pos_imp_zdiv_neg_iff)
    ultimately show ?thesis
      by (simp add: positive_def word_sless_alt reduce_small [OF 2])
  next
    case 3
    have "(2::int) ^ 63 dvd sint n" "(2::int) ^ 63 dvd sint d"
      using gcd_dvd1 [of "sint n" "sint d"] gcd_dvd2 [of "sint n" "sint d"] 3 by simp_all
    then have c: "n = 0 \<or> n = LLONG_MIN" "d = 0 \<or> d = LLONG_MIN"
      by (simp_all add: dvd_big_cases)
    then show ?thesis
      by (auto simp: reduce_big [OF 3] positive_def word_sless_alt sint_LLONG_MIN)
  qed
qed

section \<open>The comparison operators\<close>

text \<open>
  Claim C1, as the code has it. For all \<open>Frac\<close> values \<open>a\<close> and \<open>b\<close>, each comparison
  operator (\<open><\<close>, \<open><=\<close>, \<open>>\<close>, \<open>>=\<close>, \<open>==\<close>) returns the result of the
  cross-multiplication test \<open>a.num() * b.den() OP b.num() * a.den()\<close>, evaluated in
  64-bit arithmetic. Consequently, for all \<open>a\<close> and \<open>b\<close> whose denominators are strictly
  positive and whose two cross products do not overflow, each operator returns true
  exactly when the corresponding comparison holds between the rational values
  \<open>a.num() / a.den()\<close> and \<open>b.num() / b.den()\<close>.
\<close>
theorem frac_comparisons_cross_multiply:
  "(frac_less a b \<longleftrightarrow> num a * den b <s num b * den a) \<and>
   (frac_le a b \<longleftrightarrow> num a * den b \<le>s num b * den a) \<and>
   (frac_greater a b \<longleftrightarrow> num b * den a <s num a * den b) \<and>
   (frac_ge a b \<longleftrightarrow> num b * den a \<le>s num a * den b) \<and>
   (frac_eq a b \<longleftrightarrow> num a * den b = num b * den a) \<and>
   (0 <s den a \<and> 0 <s den b \<and> cmp_fits a b \<longrightarrow>
      (frac_less a b \<longleftrightarrow> rat_of a < rat_of b) \<and>
      (frac_le a b \<longleftrightarrow> rat_of a \<le> rat_of b) \<and>
      (frac_greater a b \<longleftrightarrow> rat_of a > rat_of b) \<and>
      (frac_ge a b \<longleftrightarrow> rat_of a \<ge> rat_of b) \<and>
      (frac_eq a b \<longleftrightarrow> rat_of a = rat_of b))"
  by (simp add: frac_less_def frac_le_def frac_greater_def frac_ge_def frac_eq_def
      frac_less_rat [unfolded frac_less_def] frac_le_rat [unfolded frac_le_def]
      frac_greater_rat [unfolded frac_greater_def] frac_ge_rat [unfolded frac_ge_def]
      frac_eq_rat [unfolded frac_eq_def])

text \<open>The theorem at \<open>1 / 2\<close> and \<open>2 / 3\<close>.\<close>
theorem frac_comparisons_cross_multiply_witness:
  "0 <s den half_frac \<and> 0 <s den \<lparr>num = 2, den = 3\<rparr> \<and> cmp_fits half_frac \<lparr>num = 2, den = 3\<rparr> \<and>
   frac_less half_frac \<lparr>num = 2, den = 3\<rparr> \<and> rat_of half_frac < rat_of \<lparr>num = 2, den = 3\<rparr>"
proof -
  have h: "0 <s den half_frac \<and> 0 <s den \<lparr>num = 2, den = 3\<rparr> \<and> cmp_fits half_frac \<lparr>num = 2, den = 3\<rparr>"
    by code_simp
  have l: "frac_less half_frac \<lparr>num = 2, den = 3\<rparr>"
    by code_simp
  from frac_comparisons_cross_multiply [of half_frac "\<lparr>num = 2, den = 3\<rparr>"] h l
  have "rat_of half_frac < rat_of \<lparr>num = 2, den = 3\<rparr>" by blast
  with h l show ?thesis by blast
qed

text \<open>
  Without the condition on overflow the second part of C1 fails. Both \<open>2 ^ 62 / 1\<close> and
  \<open>1 / 2\<close> have a strictly positive denominator; the product \<open>2 ^ 62 * 2\<close> wraps to
  \<open>LLONG_MIN\<close>, which is below \<open>1 * 1\<close>, so \<open><\<close> returns true although \<open>2 ^ 62\<close> is
  not below \<open>1 / 2\<close>.
\<close>
theorem frac_less_overflow_counterexample:
  "0 <s den big_frac \<and> 0 <s den half_frac \<and>
   frac_less big_frac half_frac \<and> \<not> rat_of big_frac < rat_of half_frac"
  by code_simp

section \<open>Results of the arithmetic operators are reduced\<close>

lemma reduce_unfold:
  "reduce n d =
     (if std_gcd n d = 0 then \<lparr>num = n, den = d\<rparr>
      else \<lparr>num = ll_div n (std_gcd n d), den = ll_div d (std_gcd n d)\<rparr>)"
  by (simp add: reduce_def Let_def)

lemma reduce_gcd_one:
  assumes "den (reduce n d) \<noteq> 0"
  shows "gcd (sint (num (reduce n d))) (sint (den (reduce n d))) = 1"
proof -
  have "std_gcd n d \<noteq> 0"
  proof
    assume "std_gcd n d = 0"
    then have "reduce n d = \<lparr>num = 0, den = 0\<rparr>"
      using std_gcd_eq_0_iff [of n d] by (simp add: reduce_unfold)
    with assms show False by simp
  qed
  then show ?thesis by (simp add: reduce_coprime)
qed

text \<open>
  Claim C2. Each arithmetic operator ends with the reduction step, which divides the new
  numerator and denominator by their \<^verbatim>\<open>std::gcd\<close> and skips the division only when that
  gcd is zero. For every pair of \<open>Frac\<close> values \<open>a\<close>, \<open>b\<close> with non-zero denominators,
  each result \<open>r\<close> of \<open>a + b\<close>, \<open>a - b\<close>, \<open>a * b\<close>, \<open>a / b\<close> whose denominator is not
  zero and which does not represent zero satisfies \<open>gcd \<bar>r.num()\<bar> \<bar>r.den()\<bar> = 1\<close>.
\<close>
theorem arithmetic_results_reduced:
  "(frac_add a b = reduce (num a * den b + den a * num b) (den a * den b) \<and>
    frac_sub a b = reduce (num a * den b - den a * num b) (den a * den b) \<and>
    frac_mul a b = reduce (num a * num b) (den a * den b) \<and>
    frac_div a b = reduce (num a * den b) (den a * num b)) \<and>
   reduce n d =
     (if std_gcd n d = 0 then \<lparr>num = n, den = d\<rparr>
      else \<lparr>num = ll_div n (std_gcd n d), den = ll_div d (std_gcd n d)\<rparr>) \<and>
   (den a \<noteq> 0 \<and> den b \<noteq> 0 \<longrightarrow>
     (\<forall>r \<in> {frac_add a b, frac_sub a b, frac_mul a b, frac_div a b}.
        den r \<noteq> 0 \<and> num r \<noteq> 0 \<longrightarrow> gcd \<bar>sint (num r)\<bar> \<bar>sint (den r)\<bar> = 1))"
proof -
  have r: "\<forall>r \<in> {frac_add a b, frac_sub a b, frac_mul a b, frac_div a b}.
        den r \<noteq> 0 \<and> num r \<noteq> 0 \<longrightarrow> gcd \<bar>sint (num r)\<bar> \<bar>sint (den r)\<bar> = 1"
    by (simp add: frac_add_reduce frac_sub_reduce frac_mul_reduce frac_div_reduce reduce_gcd_one)
  show ?thesis
  proof (intro conjI impI)
    show "frac_add a b = reduce (num a * den b + den a * num b) (den a * den b)"
      by (rule frac_add_reduce)
    show "frac_sub a b = reduce (num a * den b - den a * num b) (den a * den b)"
      by (rule frac_sub_reduce)
    show "frac_mul a b = reduce (num a * num b) (den a * den b)"
      by (rule frac_mul_reduce)
    show "frac_div a b = reduce (num a * den b) (den a * num b)"
      by (rule frac_div_reduce)
    show "reduce n d =
       (if std_gcd n d = 0 then \<lparr>num = n, den = d\<rparr>
        else \<lparr>num = ll_div n (std_gcd n d), den = ll_div d (std_gcd n d)\<rparr>)"
      by (rule reduce_unfold)
    show "\<forall>r \<in> {frac_add a b, frac_sub a b, frac_mul a b, frac_div a b}.
        den r \<noteq> 0 \<and> num r \<noteq> 0 \<longrightarrow> gcd \<bar>sint (num r)\<bar> \<bar>sint (den r)\<bar> = 1"
      by (rule r)
  qed
qed

text \<open>The theorem at \<open>1 / 2 + 1 / 6\<close>, which is \<open>8 / 12\<close> before and \<open>2 / 3\<close> after reduction.\<close>
theorem arithmetic_results_reduced_witness:
  "den half_frac \<noteq> 0 \<and> den \<lparr>num = 1, den = 6\<rparr> \<noteq> (0::ll) \<and>
   frac_add half_frac \<lparr>num = 1, den = 6\<rparr> = \<lparr>num = 2, den = 3\<rparr> \<and>
   gcd \<bar>sint (num (frac_add half_frac \<lparr>num = 1, den = 6\<rparr>))\<bar>
       \<bar>sint (den (frac_add half_frac \<lparr>num = 1, den = 6\<rparr>))\<bar> = 1"
proof -
  have h: "den half_frac \<noteq> 0 \<and> den \<lparr>num = 1, den = 6\<rparr> \<noteq> (0::ll)"
    by code_simp
  have v: "frac_add half_frac \<lparr>num = 1, den = 6\<rparr> = \<lparr>num = 2, den = 3\<rparr>"
    by code_simp
  then have nz: "den (frac_add half_frac \<lparr>num = 1, den = 6\<rparr>) \<noteq> 0 \<and>
      num (frac_add half_frac \<lparr>num = 1, den = 6\<rparr>) \<noteq> 0"
    by simp
  from arithmetic_results_reduced [of half_frac "\<lparr>num = 1, den = 6\<rparr>", THEN conjunct2, THEN conjunct2] h nz
  have "gcd \<bar>sint (num (frac_add half_frac \<lparr>num = 1, den = 6\<rparr>))\<bar>
       \<bar>sint (den (frac_add half_frac \<lparr>num = 1, den = 6\<rparr>))\<bar> = 1"
    by blast
  with h v show ?thesis by blast
qed

section \<open>The turn predicate\<close>

lemma cross_reduce:
  "cross p q = reduce (cross_new_num p q)
     (den (frac_mul (pt_x p) (pt_y q)) * den (frac_mul (pt_x q) (pt_y p)))"
  by (simp add: cross_def cross_new_num_def frac_sub_reduce Let_def)

lemma cross_new_num_swap: "cross_new_num q p = - cross_new_num p q"
  by (simp add: cross_new_num_def Let_def mult.commute)

lemma sint_uminus: "a \<noteq> LLONG_MIN \<Longrightarrow> sint (- a) = - sint (a::ll)"
proof -
  assume "a \<noteq> LLONG_MIN"
  then have "sint a \<noteq> - (2 ^ 63)" by (simp only: sint_eq_min_iff not_False_eq_True)
  then have "fits (- sint a)" using fits_sint [of a] unfolding fits_def by linarith
  then show ?thesis
    by (simp add: fits_def sint_word_minus signed_take_bit_int_eq_self)
qed

lemma not_both_positive:
  assumes "n \<noteq> LLONG_MIN"
  shows "\<not> (positive \<lparr>num = n, den = d\<rparr> \<and> positive \<lparr>num = - n, den = d\<rparr>)"
  using sint_uminus [OF assms] by (auto simp: positive_def word_sless_alt)

lemma cross_not_both_positive:
  assumes "cross_new_num p q \<noteq> LLONG_MIN"
  shows "\<not> (positive (cross p q) \<and> positive (cross q p))"
proof -
  let ?d = "den (frac_mul (pt_x p) (pt_y q)) * den (frac_mul (pt_x q) (pt_y p))"
  have "positive (cross p q) = positive \<lparr>num = cross_new_num p q, den = ?d\<rparr>"
    by (simp only: cross_reduce positive_reduce)
  moreover have "positive (cross q p) = positive \<lparr>num = - cross_new_num p q, den = ?d\<rparr>"
    by (simp only: cross_reduce [of q p] positive_reduce cross_new_num_swap [of q p]
        mult.commute [of "den (frac_mul (pt_x q) (pt_y p))"])
  ultimately show ?thesis using not_both_positive [OF assms] by simp
qed

text \<open>
  Claim C3, as the code has it. \<open>Left_turn_2 p0 p1 p2\<close> returns true exactly when
  \<open>positive\<close> holds of the cross product of \<open>p1 - p0\<close> and \<open>p2 - p0\<close>. For every triple
  of points that is not collinear (that cross product is not zero as a rational) and for
  which the numerator that \<open>cross\<close> computes before reduction is not \<open>LLONG_MIN\<close> (the one
  value whose negation, which the call with \<open>p1\<close> and \<open>p2\<close> swapped computes, overflows):
  if \<open>Left_turn_2 p0 p1 p2\<close> returns true then \<open>Left_turn_2 p0 p2 p1\<close> returns false.
\<close>
theorem Left_turn_2_antisymmetric:
  "(Left_turn_2 p0 p1 p2 \<longleftrightarrow> positive (cross (pt_sub p1 p0) (pt_sub p2 p0))) \<and>
   (rat_of (cross (pt_sub p1 p0) (pt_sub p2 p0)) \<noteq> 0 \<and>
    cross_new_num (pt_sub p1 p0) (pt_sub p2 p0) \<noteq> LLONG_MIN \<and>
    Left_turn_2 p0 p1 p2 \<longrightarrow> \<not> Left_turn_2 p0 p2 p1)"
  using cross_not_both_positive [of "pt_sub p1 p0" "pt_sub p2 p0"]
  by (auto simp: Left_turn_2_def)

text \<open>The theorem at the origin, \<open>(2, 0)\<close> and \<open>(1 / 2, 1 / 2)\<close>.\<close>
theorem Left_turn_2_antisymmetric_witness:
  "rat_of (cross (pt_sub two_pt origin_pt) (pt_sub \<lparr>pt_x = half_frac, pt_y = half_frac\<rparr> origin_pt)) \<noteq> 0 \<and>
   cross_new_num (pt_sub two_pt origin_pt) (pt_sub \<lparr>pt_x = half_frac, pt_y = half_frac\<rparr> origin_pt) \<noteq> LLONG_MIN \<and>
   Left_turn_2 origin_pt two_pt \<lparr>pt_x = half_frac, pt_y = half_frac\<rparr> \<and>
   \<not> Left_turn_2 origin_pt \<lparr>pt_x = half_frac, pt_y = half_frac\<rparr> two_pt"
proof -
  let ?q = "\<lparr>pt_x = half_frac, pt_y = half_frac\<rparr>"
  have h: "rat_of (cross (pt_sub two_pt origin_pt) (pt_sub ?q origin_pt)) \<noteq> 0 \<and>
      cross_new_num (pt_sub two_pt origin_pt) (pt_sub ?q origin_pt) \<noteq> LLONG_MIN \<and>
      Left_turn_2 origin_pt two_pt ?q"
    by code_simp
  from Left_turn_2_antisymmetric [of origin_pt two_pt ?q, THEN conjunct2] h
  have "\<not> Left_turn_2 origin_pt ?q two_pt" by blast
  with h show ?thesis by blast
qed

text \<open>
  Stated for every triple, C3 fails. With \<open>p0\<close> the origin, \<open>p1 = (LLONG_MIN / 1, 0 / 1)\<close> and
  \<open>p2 = (0 / 1, 1 / - 1)\<close> the cross product is \<open>LLONG_MIN / - 1\<close>, not zero and positive.
  With \<open>p1\<close> and \<open>p2\<close> swapped the numerator is \<open>0 - LLONG_MIN\<close>, which wraps to
  \<open>LLONG_MIN\<close> again, so both calls return true.
\<close>
theorem Left_turn_2_overflow_counterexample:
  "rat_of (cross (pt_sub min_x_pt origin_pt) (pt_sub neg_den_y_pt origin_pt)) \<noteq> 0 \<and>
   Left_turn_2 origin_pt min_x_pt neg_den_y_pt \<and>
   Left_turn_2 origin_pt neg_den_y_pt min_x_pt"
  by code_simp

section \<open>The sign test\<close>

text \<open>
  Claim C4. For every \<open>Frac\<close> value \<open>a\<close>, \<open>positive\<close> returns true if and only if the
  numerator and the denominator are both strictly positive or both strictly negative.
  In particular it returns false when the numerator is zero, and for every non-zero
  denominator, of either sign, it returns true exactly when the rational value
  \<open>num / den\<close> is strictly greater than zero.
\<close>
theorem positive_same_strict_sign:
  "(positive a \<longleftrightarrow> (0 <s num a \<and> 0 <s den a) \<or> (num a <s 0 \<and> den a <s 0)) \<and>
   (num a = 0 \<longrightarrow> \<not> positive a) \<and>
   (den a \<noteq> 0 \<longrightarrow> (positive a \<longleftrightarrow> 0 < rat_of a))"
proof -
  have "positive a \<longleftrightarrow> 0 < rat_of a" if "den a \<noteq> 0"
  proof -
    have "sint (den a) \<noteq> 0" using that by (simp add: sint_eq_0_iff)
    have "0 < rat_of a \<longleftrightarrow>
      (0 < (of_int (sint (num a)) :: rat) \<and> 0 < (of_int (sint (den a)) :: rat)) \<or>
      ((of_int (sint (num a)) :: rat) < 0 \<and> (of_int (sint (den a)) :: rat) < 0)"
      unfolding rat_of_def by (rule zero_less_divide_iff)
    also have "\<dots> \<longleftrightarrow> (0 < sint (num a) \<and> 0 < sint (den a)) \<or> (sint (num a) < 0 \<and> sint (den a) < 0)"
      by (simp only: of_int_0_less_iff of_int_less_0_iff)
    also have "\<dots> \<longleftrightarrow> positive a"
      by (simp add: positive_def word_sless_alt)
    finally show ?thesis by simp
  qed
  moreover have "\<not> positive a" if "num a = 0"
    using that by (simp add: positive_def word_sless_alt)
  ultimately show ?thesis
    by (simp add: positive_def)
qed

theorem positive_same_strict_sign_witness:
  "den \<lparr>num = - 3, den = - 4\<rparr> \<noteq> (0::ll) \<and> positive \<lparr>num = - 3, den = - 4\<rparr> \<and>
   0 < rat_of \<lparr>num = - 3, den = - 4\<rparr> \<and>
   num \<lparr>num = 0, den = 5\<rparr> = (0::ll) \<and> \<not> positive \<lparr>num = 0, den = 5\<rparr>"
proof -
  have h: "den \<lparr>num = - 3, den = - 4\<rparr> \<noteq> (0::ll)" "num \<lparr>num = 0, den = 5\<rparr> = (0::ll)"
    by simp_all
  have p: "positive \<lparr>num = - 3, den = - 4\<rparr>" by code_simp
  show ?thesis
    using h p positive_same_strict_sign [of "\<lparr>num = - 3, den = - 4\<rparr>"]
      positive_same_strict_sign [of "\<lparr>num = 0, den = 5\<rparr>"] by blast
qed

section \<open>Commutativity and self-inverse identities\<close>

lemma frac_add_commute: "frac_add a b = frac_add b a"
  by (simp add: frac_add_reduce mult.commute add.commute)

lemma frac_mul_commute: "frac_mul a b = frac_mul b a"
  by (simp add: frac_mul_reduce mult.commute)

lemma frac_eq_refl: "frac_eq r r"
  by (simp add: frac_eq_def)

text \<open>
  Claim C5. For all \<open>Frac\<close> values \<open>a\<close> and \<open>b\<close> whose denominators are strictly
  positive, \<open>a + b == b + a\<close> and \<open>a * b == b * a\<close> under the \<open>==\<close> of \<open>Frac\<close>. (The
  two sums are even the same representation, and so are the two products: see
  \<open>frac_add_commute\<close> and \<open>frac_mul_commute\<close>, which need no hypothesis.)
\<close>
theorem frac_add_mul_commutative:
  assumes "0 <s den a" and "0 <s den b"
  shows "frac_eq (frac_add a b) (frac_add b a) \<and> frac_eq (frac_mul a b) (frac_mul b a)"
  by (simp add: frac_add_commute [of a b] frac_mul_commute [of a b] frac_eq_refl)

theorem frac_add_mul_commutative_witness:
  "0 <s den half_frac \<and> 0 <s den \<lparr>num = 1, den = 6\<rparr> \<and>
   frac_add half_frac \<lparr>num = 1, den = 6\<rparr> = \<lparr>num = 2, den = 3\<rparr> \<and>
   frac_eq (frac_add half_frac \<lparr>num = 1, den = 6\<rparr>) (frac_add \<lparr>num = 1, den = 6\<rparr> half_frac) \<and>
   frac_eq (frac_mul half_frac \<lparr>num = 1, den = 6\<rparr>) (frac_mul \<lparr>num = 1, den = 6\<rparr> half_frac)"
proof -
  have h: "0 <s den half_frac" "0 <s den \<lparr>num = 1, den = 6\<rparr>"
    by code_simp+
  have "frac_add half_frac \<lparr>num = 1, den = 6\<rparr> = \<lparr>num = 2, den = 3\<rparr>"
    by code_simp
  then show ?thesis
    using h frac_add_mul_commutative [OF h] by simp
qed

lemma ll_div_zero_left: "ll_div 0 g = 0"
  by (simp add: ll_div_def)

lemma num_reduce_zero: "num (reduce 0 d) = 0"
  by (simp add: reduce_def Let_def ll_div_zero_left)

lemma reduce_same: "num (reduce m m) = den (reduce m m)"
  by (simp add: reduce_def Let_def)

text \<open>
  Claim C6. For every \<open>Frac\<close> value \<open>a\<close>, \<open>a - a == 0\<close> where \<open>0\<close> is the fraction with
  numerator 0 and denominator 1; and for every \<open>a\<close> whose numerator is not zero,
  \<open>a / a == 1\<close> where \<open>1\<close> is the fraction with numerator 1 and denominator 1.
\<close>
theorem frac_sub_self_div_self:
  "frac_eq (frac_sub a a) \<lparr>num = 0, den = 1\<rparr> \<and>
   (num a \<noteq> 0 \<longrightarrow> frac_eq (frac_div a a) \<lparr>num = 1, den = 1\<rparr>)"
proof -
  have "num a * den a - den a * num a = 0"
    by (simp add: mult.commute)
  then have "num (frac_sub a a) = 0"
    by (simp add: frac_sub_reduce num_reduce_zero)
  moreover have "num (frac_div a a) = den (frac_div a a)"
    by (simp add: frac_div_reduce mult.commute [of "den a"] reduce_same)
  ultimately show ?thesis
    by (simp add: frac_eq_def)
qed

theorem frac_sub_self_div_self_witness:
  "num \<lparr>num = 3, den = 4\<rparr> \<noteq> (0::ll) \<and>
   frac_div \<lparr>num = 3, den = 4\<rparr> \<lparr>num = 3, den = 4\<rparr> = \<lparr>num = 1, den = 1\<rparr> \<and>
   frac_eq (frac_sub \<lparr>num = 3, den = 4\<rparr> \<lparr>num = 3, den = 4\<rparr>) \<lparr>num = 0, den = 1\<rparr> \<and>
   frac_eq (frac_div \<lparr>num = 3, den = 4\<rparr> \<lparr>num = 3, den = 4\<rparr>) \<lparr>num = 1, den = 1\<rparr>"
proof -
  have h: "num \<lparr>num = 3, den = 4\<rparr> \<noteq> (0::ll)" by simp
  have "frac_div \<lparr>num = 3, den = 4\<rparr> \<lparr>num = 3, den = 4\<rparr> = \<lparr>num = 1, den = 1\<rparr>"
    by code_simp
  then show ?thesis
    using h frac_sub_self_div_self [of "\<lparr>num = 3, den = 4\<rparr>"] by simp
qed

section \<open>The ordering predicate\<close>

lemma frac_trichotomy:
  "(frac_less a b \<or> frac_less b a \<or> frac_eq a b) \<and>
   \<not> (frac_less a b \<and> frac_less b a) \<and>
   \<not> (frac_less a b \<and> frac_eq a b) \<and>
   \<not> (frac_less b a \<and> frac_eq a b)"
  unfolding frac_less_def frac_eq_def word_sless_alt ll_eq_iff_sint [of "num a * den b"]
  by linarith

lemma frac_eq_sym: "frac_eq a b \<longleftrightarrow> frac_eq b a"
  by (auto simp: frac_eq_def)

lemma Less_xy_2_irrefl: "\<not> Less_xy_2 p p"
  by (simp add: Less_xy_2_def frac_less_def)

lemma Less_xy_2_trichotomy:
  "(Less_xy_2 p q \<or> Less_xy_2 q p \<or> Equal_2 p q) \<and>
   \<not> (Less_xy_2 p q \<and> Less_xy_2 q p) \<and>
   \<not> (Less_xy_2 p q \<and> Equal_2 p q) \<and>
   \<not> (Less_xy_2 q p \<and> Equal_2 p q)"
  using frac_trichotomy [of "pt_x p" "pt_x q"] frac_trichotomy [of "pt_y p" "pt_y q"]
    frac_eq_sym [of "pt_x p" "pt_x q"]
  unfolding Less_xy_2_def Equal_2_def by blast

lemma Less_xy_2_rat:
  assumes "pos_dens p" "pos_dens q" "pt_cmp_fits p q"
  shows "Less_xy_2 p q \<longleftrightarrow>
    rat_of (pt_x p) < rat_of (pt_x q) \<or>
    (rat_of (pt_x p) = rat_of (pt_x q) \<and> rat_of (pt_y p) < rat_of (pt_y q))"
  using assms
  by (simp add: Less_xy_2_def pos_dens_def pt_cmp_fits_def frac_less_rat frac_eq_rat)

lemma Less_xy_2_trans:
  assumes "pos_dens p" "pos_dens q" "pos_dens r"
    and "pt_cmp_fits p q" "pt_cmp_fits q r" "pt_cmp_fits p r"
    and "Less_xy_2 p q" "Less_xy_2 q r"
  shows "Less_xy_2 p r"
  using assms(7,8)
  unfolding Less_xy_2_rat [OF assms(1,2,4)] Less_xy_2_rat [OF assms(2,3,5)]
    Less_xy_2_rat [OF assms(1,3,6)]
  by auto

text \<open>
  Claim C7, as the code has it. \<open>Less_xy_2\<close> compares points lexicographically by \<open>x\<close>
  then \<open>y\<close>: \<open>Less_xy_2 p q\<close> is true iff \<open>p.x() < q.x()\<close>, or \<open>p.x() == q.x()\<close> and
  \<open>p.y() < q.y()\<close>. For all points it is irreflexive and exactly one of \<open>Less_xy_2 p q\<close>,
  \<open>Less_xy_2 q p\<close>, \<open>Equal_2 p q\<close> holds. It is transitive on points \<open>p\<close>, \<open>q\<close>, \<open>r\<close>
  whose coordinates all have strictly positive denominators and whose pairwise
  comparisons overflow in no cross product.
\<close>
theorem Less_xy_2_strict_order:
  "(Less_xy_2 p q \<longleftrightarrow>
      frac_less (pt_x p) (pt_x q) \<or> (frac_eq (pt_x p) (pt_x q) \<and> frac_less (pt_y p) (pt_y q))) \<and>
   \<not> Less_xy_2 p p \<and>
   (Less_xy_2 p q \<or> Less_xy_2 q p \<or> Equal_2 p q) \<and>
   \<not> (Less_xy_2 p q \<and> Less_xy_2 q p) \<and>
   \<not> (Less_xy_2 p q \<and> Equal_2 p q) \<and>
   \<not> (Less_xy_2 q p \<and> Equal_2 p q) \<and>
   (pos_dens p \<and> pos_dens q \<and> pos_dens r \<and>
    pt_cmp_fits p q \<and> pt_cmp_fits q r \<and> pt_cmp_fits p r \<and>
    Less_xy_2 p q \<and> Less_xy_2 q r \<longrightarrow> Less_xy_2 p r)"
proof -
  have "Less_xy_2 p q \<longleftrightarrow>
      frac_less (pt_x p) (pt_x q) \<or> (frac_eq (pt_x p) (pt_x q) \<and> frac_less (pt_y p) (pt_y q))"
    by (simp add: Less_xy_2_def)
  then show ?thesis
    using Less_xy_2_irrefl [of p] Less_xy_2_trichotomy [of p q] Less_xy_2_trans [of p q r]
    by blast
qed

text \<open>The theorem at the origin, \<open>(1 / 2, 1 / 2)\<close> and \<open>(2, 0)\<close>.\<close>
theorem Less_xy_2_strict_order_witness:
  "pos_dens origin_pt \<and> pos_dens \<lparr>pt_x = half_frac, pt_y = half_frac\<rparr> \<and> pos_dens two_pt \<and>
   pt_cmp_fits origin_pt \<lparr>pt_x = half_frac, pt_y = half_frac\<rparr> \<and>
   pt_cmp_fits \<lparr>pt_x = half_frac, pt_y = half_frac\<rparr> two_pt \<and>
   pt_cmp_fits origin_pt two_pt \<and>
   Less_xy_2 origin_pt \<lparr>pt_x = half_frac, pt_y = half_frac\<rparr> \<and>
   Less_xy_2 \<lparr>pt_x = half_frac, pt_y = half_frac\<rparr> two_pt \<and>
   Less_xy_2 origin_pt two_pt"
proof -
  let ?q = "\<lparr>pt_x = half_frac, pt_y = half_frac\<rparr>"
  have h: "pos_dens origin_pt \<and> pos_dens ?q \<and> pos_dens two_pt \<and>
      pt_cmp_fits origin_pt ?q \<and> pt_cmp_fits ?q two_pt \<and> pt_cmp_fits origin_pt two_pt \<and>
      Less_xy_2 origin_pt ?q \<and> Less_xy_2 ?q two_pt"
    by code_simp
  from Less_xy_2_strict_order [of origin_pt ?q two_pt] h
  have "Less_xy_2 origin_pt two_pt" by blast
  with h show ?thesis by blast
qed

text \<open>
  Stated for all points, transitivity fails, and without any overflow. On the x axis,
  \<open>2 / 1 < - 1 / - 1\<close> since \<open>2 * - 1 < - 1 * 1\<close>, and \<open>- 1 / - 1 < 0 / 1\<close> since
  \<open>- 1 * 1 < 0 * - 1\<close>, but \<open>2 / 1 < 0 / 1\<close> is false and so is \<open>2 / 1 == 0 / 1\<close>.
\<close>
theorem Less_xy_2_negative_denominator_counterexample:
  "Less_xy_2 two_pt neg_one_pt \<and> Less_xy_2 neg_one_pt origin_pt \<and> \<not> Less_xy_2 two_pt origin_pt"
  by code_simp

text \<open>
  Strictly positive denominators alone do not give transitivity either:
  \<open>1 / 1 < 2 ^ 62 / 1\<close>, and \<open>2 ^ 62 / 1 < 1 / 2\<close> because \<open>2 ^ 62 * 2\<close> wraps, but
  \<open>1 / 1 < 1 / 2\<close> is false.
\<close>
lemma Less_xy_2_overflow_not_transitive:
  "pos_dens \<lparr>pt_x = \<lparr>num = 1, den = 1\<rparr>, pt_y = half_frac\<rparr> \<and>
   pos_dens \<lparr>pt_x = big_frac, pt_y = half_frac\<rparr> \<and>
   pos_dens \<lparr>pt_x = half_frac, pt_y = half_frac\<rparr> \<and>
   Less_xy_2 \<lparr>pt_x = \<lparr>num = 1, den = 1\<rparr>, pt_y = half_frac\<rparr> \<lparr>pt_x = big_frac, pt_y = half_frac\<rparr> \<and>
   Less_xy_2 \<lparr>pt_x = big_frac, pt_y = half_frac\<rparr> \<lparr>pt_x = half_frac, pt_y = half_frac\<rparr> \<and>
   \<not> Less_xy_2 \<lparr>pt_x = \<lparr>num = 1, den = 1\<rparr>, pt_y = half_frac\<rparr> \<lparr>pt_x = half_frac, pt_y = half_frac\<rparr>"
  by code_simp

section \<open>The equality predicate\<close>

lemma word_mult_sint: "(word_of_int (sint a * sint b) :: ll) = a * b"
  by (simp add: word_of_int_hom_syms)

lemma rat_eq_cross_nz:
  fixes n m d e :: int
  assumes "d \<noteq> 0" "e \<noteq> 0" "(of_int n / of_int d :: rat) = of_int m / of_int e"
  shows "n * e = m * d"
proof -
  have "(of_int n * of_int e :: rat) = of_int m * of_int d"
    using assms by (simp add: frac_eq_eq)
  then show ?thesis
    by (simp only: of_int_mult [symmetric] of_int_eq_iff)
qed

lemma frac_eq_of_rat_eq:
  assumes "den a \<noteq> 0" "den b \<noteq> 0" "rat_of a = rat_of b"
  shows "frac_eq a b"
proof -
  have "sint (num a) * sint (den b) = sint (num b) * sint (den a)"
    using assms by (intro rat_eq_cross_nz [of "sint (den a)" "sint (den b)"])
      (simp_all only: sint_eq_0_iff rat_of_def not_False_eq_True)
  then have "(word_of_int (sint (num a) * sint (den b)) :: ll) =
      word_of_int (sint (num b) * sint (den a))"
    by simp
  then show ?thesis by (simp only: word_mult_sint frac_eq_def)
qed

text \<open>
  Claim C8. For all points \<open>p\<close> and \<open>q\<close>, \<open>Equal_2 p q\<close> returns true if and only if
  \<open>p.x() == q.x()\<close> and \<open>p.y() == q.y()\<close> under the cross-multiplication equality of
  \<open>Frac\<close>, that is, if and only if \<open>p.x().num() * q.x().den() = q.x().num() * p.x().den()\<close>
  and \<open>p.y().num() * q.y().den() = q.y().num() * p.y().den()\<close> in 64-bit arithmetic. In
  particular it returns true for points whose coordinates are different representations
  of the same rational value, such as \<open>1 / 2\<close> and \<open>2 / 4\<close>, not only for identical
  numerator and denominator pairs.
\<close>
theorem Equal_2_componentwise:
  "(Equal_2 p q \<longleftrightarrow>
      num (pt_x p) * den (pt_x q) = num (pt_x q) * den (pt_x p) \<and>
      num (pt_y p) * den (pt_y q) = num (pt_y q) * den (pt_y p)) \<and>
   (Equal_2 p q \<longleftrightarrow> frac_eq (pt_x p) (pt_x q) \<and> frac_eq (pt_y p) (pt_y q)) \<and>
   (frac_eq a b \<longleftrightarrow> num a * den b = num b * den a) \<and>
   (den (pt_x p) \<noteq> 0 \<and> den (pt_x q) \<noteq> 0 \<and> den (pt_y p) \<noteq> 0 \<and> den (pt_y q) \<noteq> 0 \<and>
    rat_of (pt_x p) = rat_of (pt_x q) \<and> rat_of (pt_y p) = rat_of (pt_y q) \<longrightarrow> Equal_2 p q)"
proof (intro conjI impI)
  show "Equal_2 p q \<longleftrightarrow>
      num (pt_x p) * den (pt_x q) = num (pt_x q) * den (pt_x p) \<and>
      num (pt_y p) * den (pt_y q) = num (pt_y q) * den (pt_y p)"
    by (simp add: Equal_2_def frac_eq_def)
  show "Equal_2 p q \<longleftrightarrow> frac_eq (pt_x p) (pt_x q) \<and> frac_eq (pt_y p) (pt_y q)"
    by (simp add: Equal_2_def)
  show "frac_eq a b \<longleftrightarrow> num a * den b = num b * den a"
    by (simp add: frac_eq_def)
  show "Equal_2 p q"
    if "den (pt_x p) \<noteq> 0 \<and> den (pt_x q) \<noteq> 0 \<and> den (pt_y p) \<noteq> 0 \<and> den (pt_y q) \<noteq> 0 \<and>
      rat_of (pt_x p) = rat_of (pt_x q) \<and> rat_of (pt_y p) = rat_of (pt_y q)"
    using that by (simp add: Equal_2_def frac_eq_of_rat_eq)
qed

text \<open>
  The theorem at \<open>(1 / 2, 1 / 2)\<close> and \<open>(2 / 4, - 3 / - 6)\<close>, two different records that
  are equal, and at \<open>(1 / 2, 1 / 2)\<close> and \<open>(1 / 2, 2 / 3)\<close>, which are not: the cross
  products \<open>1 * 3\<close> and \<open>2 * 2\<close> of the ordinates differ.
\<close>
theorem Equal_2_componentwise_witness:
  "\<lparr>pt_x = half_frac, pt_y = half_frac\<rparr> \<noteq> \<lparr>pt_x = \<lparr>num = 2, den = 4\<rparr>, pt_y = \<lparr>num = - 3, den = - 6\<rparr>\<rparr> \<and>
   rat_of half_frac = rat_of \<lparr>num = 2, den = 4\<rparr> \<and>
   rat_of half_frac = rat_of \<lparr>num = - 3, den = - 6\<rparr> \<and>
   Equal_2 \<lparr>pt_x = half_frac, pt_y = half_frac\<rparr> \<lparr>pt_x = \<lparr>num = 2, den = 4\<rparr>, pt_y = \<lparr>num = - 3, den = - 6\<rparr>\<rparr> \<and>
   num half_frac * den \<lparr>num = 2, den = 3\<rparr> \<noteq> num \<lparr>num = 2, den = 3\<rparr> * den half_frac \<and>
   \<not> Equal_2 \<lparr>pt_x = half_frac, pt_y = half_frac\<rparr> \<lparr>pt_x = half_frac, pt_y = \<lparr>num = 2, den = 3\<rparr>\<rparr>"
proof -
  let ?p = "\<lparr>pt_x = half_frac, pt_y = half_frac\<rparr>"
  let ?q = "\<lparr>pt_x = \<lparr>num = 2, den = 4\<rparr>, pt_y = \<lparr>num = - 3, den = - 6\<rparr>\<rparr>"
  let ?r = "\<lparr>pt_x = half_frac, pt_y = \<lparr>num = 2, den = 3\<rparr>\<rparr>"
  have d: "den (pt_x ?p) \<noteq> 0 \<and> den (pt_x ?q) \<noteq> 0 \<and> den (pt_y ?p) \<noteq> 0 \<and> den (pt_y ?q) \<noteq> 0"
    by code_simp
  have r: "rat_of half_frac = rat_of \<lparr>num = 2, den = 4\<rparr>"
    "rat_of half_frac = rat_of \<lparr>num = - 3, den = - 6\<rparr>"
    by code_simp+
  have ne: "?p \<noteq> ?q" by (simp add: half_frac_def)
  have r': "rat_of (pt_x ?p) = rat_of (pt_x ?q)" "rat_of (pt_y ?p) = rat_of (pt_y ?q)"
    using r by simp_all
  from Equal_2_componentwise [of ?p ?q, THEN conjunct2, THEN conjunct2, THEN conjunct2] d r'
  have e: "Equal_2 ?p ?q" by blast
  have c: "num half_frac * den \<lparr>num = 2, den = 3\<rparr> \<noteq> num \<lparr>num = 2, den = 3\<rparr> * den half_frac"
    by code_simp
  then have "num (pt_y ?p) * den (pt_y ?r) \<noteq> num (pt_y ?r) * den (pt_y ?p)"
    by simp
  with Equal_2_componentwise [of ?p ?r, THEN conjunct1]
  have n: "\<not> Equal_2 ?p ?r" by blast
  from ne r e c n show ?thesis by blast
qed

section \<open>Scalar multiplication from either side\<close>

text \<open>
  Claim C9. For every \<open>Frac\<close> value \<open>s\<close> and every point \<open>p\<close>, \<open>p * s\<close> and \<open>s * p\<close>
  are the same point, numerator for numerator and denominator for denominator in each
  coordinate: both operators build \<open>{s * p.x(), s * p.y()}\<close>.
\<close>
theorem scalar_mul_sides_agree:
  "scalar_mul_right p s = scalar_mul_left s p \<and>
   scalar_mul_left s p = \<lparr>pt_x = frac_mul s (pt_x p), pt_y = frac_mul s (pt_y p)\<rparr> \<and>
   num (pt_x (scalar_mul_right p s)) = num (pt_x (scalar_mul_left s p)) \<and>
   den (pt_x (scalar_mul_right p s)) = den (pt_x (scalar_mul_left s p)) \<and>
   num (pt_y (scalar_mul_right p s)) = num (pt_y (scalar_mul_left s p)) \<and>
   den (pt_y (scalar_mul_right p s)) = den (pt_y (scalar_mul_left s p))"
  by (simp add: scalar_mul_right_def scalar_mul_left_def)

section \<open>Division by a fraction with numerator zero\<close>

lemma std_gcd_not_minus_one: "std_gcd n d \<noteq> - 1"
proof -
  let ?G = "gcd (sint n) (sint d)"
  from gcd_sint_cases [of n d] consider "?G = 0" | "0 < ?G" "?G < 2 ^ 63" | "?G = 2 ^ 63" by blast
  then have "sint (std_gcd n d) \<noteq> - 1"
  proof cases
    case 1
    then show ?thesis by (simp add: std_gcd_def)
  next
    case 2
    then show ?thesis using sint_std_gcd_small [OF 2(2)] by linarith
  next
    case 3
    then show ?thesis by (simp add: std_gcd_big sint_LLONG_MIN)
  qed
  then show ?thesis by auto
qed

lemma reduction_division_defined:
  assumes "std_gcd n d \<noteq> 0"
  shows "ll_div_defined n (std_gcd n d) \<and> ll_div_defined d (std_gcd n d)"
  using assms std_gcd_not_minus_one [of n d] by (simp add: ll_div_defined_def)

lemma den_reduce_zero: "den (reduce m 0) = 0"
  by (simp add: reduce_def Let_def ll_div_def)

lemma reduce_zero_zero: "reduce 0 0 = \<lparr>num = 0, den = 0\<rparr>"
  by (simp add: reduce_def Let_def std_gcd_def)

lemma sdiv_abs_self:
  fixes k :: int
  shows "k sdiv \<bar>k\<bar> = sgn k"
  by (cases "k = 0") (simp_all add: signed_divide_int_def sgn_if)

lemma ll_sign_sint: "ll_sign m = word_of_int (sgn (sint m))"
  by (simp add: ll_sign_def word_sless_alt sgn_if)

lemma num_reduce_sign:
  assumes "m \<noteq> 0" "m \<noteq> LLONG_MIN"
  shows "num (reduce m 0) = ll_sign m"
proof -
  have nz: "sint m \<noteq> 0" using assms(1) by (simp add: sint_eq_0_iff)
  have "sint m \<noteq> - (2 ^ 63)" using assms(2) by (simp only: sint_eq_min_iff not_False_eq_True)
  then have small: "gcd (sint m) (sint (0::ll)) < 2 ^ 63"
    using fits_sint [of m] by (simp add: fits_def abs_less_iff)
  have g: "sint (std_gcd m 0) = \<bar>sint m\<bar>"
    using sint_std_gcd_small [OF small] by simp
  then have "std_gcd m 0 \<noteq> 0" using nz by (auto simp: sint_eq_0_iff [symmetric])
  then show ?thesis
    by (simp add: reduce_def Let_def ll_div_def g sdiv_abs_self ll_sign_sint)
qed

text \<open>
  Claim C10, as the code has it. For every \<open>Frac\<close> value \<open>a\<close> and every \<open>b\<close> whose
  numerator is zero, \<open>a / b\<close> returns a \<open>Frac\<close> whose denominator is zero, and the
  divisions of the reduction step, when they are executed, are defined (no division by
  zero, no \<open>LLONG_MIN / - 1\<close>). The result is \<open>(0, 0)\<close> when the product
  \<open>a.num() * b.den()\<close> is zero, and \<open>(sign (a.num() * b.den()), 0)\<close> when that product is
  neither zero nor \<open>LLONG_MIN\<close>.
\<close>
theorem frac_div_zero_numerator:
  "num b = 0 \<longrightarrow>
     den (frac_div a b) = 0 \<and>
     (num a * den b = 0 \<longrightarrow> frac_div a b = \<lparr>num = 0, den = 0\<rparr>) \<and>
     (num a * den b \<noteq> 0 \<and> num a * den b \<noteq> LLONG_MIN \<longrightarrow>
        frac_div a b = \<lparr>num = ll_sign (num a * den b), den = 0\<rparr>) \<and>
     (std_gcd (num a * den b) (den a * num b) \<noteq> 0 \<longrightarrow>
        ll_div_defined (num a * den b) (std_gcd (num a * den b) (den a * num b)) \<and>
        ll_div_defined (den a * num b) (std_gcd (num a * den b) (den a * num b)))"
proof
  assume z: "num b = 0"
  let ?m = "num a * den b"
  have r: "frac_div a b = reduce ?m 0" using z by (simp add: frac_div_reduce)
  have 1: "den (frac_div a b) = 0" by (simp add: r den_reduce_zero)
  have 2: "frac_div a b = \<lparr>num = 0, den = 0\<rparr>" if "?m = 0"
    using that by (simp add: r reduce_zero_zero)
  have 3: "frac_div a b = \<lparr>num = ll_sign ?m, den = 0\<rparr>" if "?m \<noteq> 0 \<and> ?m \<noteq> LLONG_MIN"
  proof -
    have "num (frac_div a b) = ll_sign ?m" using that by (simp add: r num_reduce_sign)
    with 1 show ?thesis by (cases "frac_div a b") simp
  qed
  show "den (frac_div a b) = 0 \<and>
     (?m = 0 \<longrightarrow> frac_div a b = \<lparr>num = 0, den = 0\<rparr>) \<and>
     (?m \<noteq> 0 \<and> ?m \<noteq> LLONG_MIN \<longrightarrow> frac_div a b = \<lparr>num = ll_sign ?m, den = 0\<rparr>) \<and>
     (std_gcd ?m (den a * num b) \<noteq> 0 \<longrightarrow>
        ll_div_defined ?m (std_gcd ?m (den a * num b)) \<and>
        ll_div_defined (den a * num b) (std_gcd ?m (den a * num b)))"
    using 1 2 3 reduction_division_defined [of ?m "den a * num b"] by blast
qed

text \<open>The theorem at \<open>(- 6 / 4) / (0 / 3)\<close>: the product is \<open>- 18\<close> and the result \<open>- 1 / 0\<close>.\<close>
theorem frac_div_zero_numerator_witness:
  "num \<lparr>num = 0, den = 3\<rparr> = (0::ll) \<and>
   num \<lparr>num = - 6, den = 4\<rparr> * den \<lparr>num = 0, den = 3\<rparr> \<noteq> (0::ll) \<and>
   num \<lparr>num = - 6, den = 4\<rparr> * den \<lparr>num = 0, den = 3\<rparr> \<noteq> LLONG_MIN \<and>
   ll_sign (num \<lparr>num = - 6, den = 4\<rparr> * den \<lparr>num = 0, den = 3\<rparr>) = - 1 \<and>
   frac_div \<lparr>num = - 6, den = 4\<rparr> \<lparr>num = 0, den = 3\<rparr> = \<lparr>num = - 1, den = 0\<rparr>"
proof -
  let ?a = "\<lparr>num = - 6, den = 4 :: ll\<rparr>"
  let ?b = "\<lparr>num = 0, den = 3 :: ll\<rparr>"
  have h: "num ?b = 0" by simp
  have m: "num ?a * den ?b \<noteq> 0 \<and> num ?a * den ?b \<noteq> LLONG_MIN"
    by code_simp
  have s: "ll_sign (num ?a * den ?b) = - 1"
    by code_simp
  from frac_div_zero_numerator [of ?b ?a] h m
  have "frac_div ?a ?b = \<lparr>num = ll_sign (num ?a * den ?b), den = 0\<rparr>" by blast
  with h m s show ?thesis by simp
qed

text \<open>
  Stated for every \<open>a\<close>, C10 fails. Dividing \<open>LLONG_MIN / 1\<close> by \<open>0 / 1\<close>, the product is
  \<open>LLONG_MIN\<close>, whose sign is \<open>- 1\<close>; its absolute value \<open>2 ^ 63\<close> is not a
  \<^verbatim>\<open>long long\<close>, the gcd comes back as \<open>LLONG_MIN\<close>, and
  \<open>LLONG_MIN / LLONG_MIN\<close> is \<open>1\<close>: the result is \<open>1 / 0\<close>, not \<open>- 1 / 0\<close>.
\<close>
theorem frac_div_llong_min_counterexample:
  "num Frac_default = 0 \<and>
   num min_frac * den Frac_default \<noteq> 0 \<and>
   ll_sign (num min_frac * den Frac_default) = - 1 \<and>
   frac_div min_frac Frac_default = \<lparr>num = 1, den = 0\<rparr>"
  by code_simp

end
